theory Spec2Isabelle
  imports Main "HOL-Library.AList"
begin

section \<open>The permission-gated store of \<^verbatim>\<open>src/store.ts\<close>\<close>

text \<open>
  The store is a tree of containers addressed by colon-separated paths. Each key of a
  container carries a permission, looked up in a registry that is keyed by the instance
  and by the prototypes of its class chain, with the container's \<^verbatim>\<open>defaultPolicy\<close> as the
  fallback.

  Modelling decisions, each visible in the definitions below:
  \<^item> A container is a value of the datatype \<open>store\<close>; a nested container sits inside the
    slot of its parent, so the model covers container trees (every nested container
    owned by one slot) and not containers shared between two slots.
  \<^item> The \<^verbatim>\<open>WeakMap\<close> entry of an instance is the field \<open>instancePermissions\<close> of that
    instance; the entries of prototypes are the \<open>registry\<close>, which the operations of the
    container only read.
  \<^item> A producer function is \<open>Producer pid f\<close>: its \<open>n\<close>-th invocation (counted from 0)
    returns \<open>f n\<close>, and the number of invocations made so far is kept outside the tree,
    in \<open>calls\<close>, as the captured variables of a closure are. Producers return JSON data or
    \<^verbatim>\<open>undefined\<close>.
  \<^item> A thrown \<^verbatim>\<open>Error\<close> is the left summand of the result; the container and the
    invocation counts reached at the throw are returned with it, since nothing is
    rolled back.
  \<^item> The own properties of an instance other than \<^verbatim>\<open>defaultPolicy\<close> and
    \<^verbatim>\<open>dynamicValues\<close> are the association list \<open>fields\<close>. Keys are taken not to name a
    member that the instance inherits from its prototypes (the methods of the class).
  \<^item> JSON numbers are integers.
\<close>

subsection \<open>Data\<close>

datatype permission = R | W | RW | NoAccess

text \<open>
  Modelled from the spec: the module \<^verbatim>\<open>./json-types\<close> (the types \<^verbatim>\<open>JSONPrimitive\<close>,
  \<^verbatim>\<open>JSONArray\<close>, \<^verbatim>\<open>JSONObject\<close>, \<^verbatim>\<open>JSONValue\<close>) is imported by the source and not part of
  it. A JSON primitive is a string, a number, a boolean or null; arrays and objects are
  plain data. An object lists its entries in the order of \<^verbatim>\<open>Object.entries\<close>.
\<close>

datatype json = JNull | JBool bool | JNum int | JStr string
  | JArr "json list" | JObj "(string \<times> json) list"

text \<open>
  The owners of class-level permissions: the prototype of a subclass of \<^verbatim>\<open>Store\<close>,
  \<^verbatim>\<open>Store.prototype\<close> and \<^verbatim>\<open>Object.prototype\<close>.
\<close>

datatype proto = ObjectProto | StoreProto | ClassProto string

type_synonym registry = "proto \<Rightarrow> string \<Rightarrow> permission option"

text \<open>
  \<open>store_value\<close> is the type \<^verbatim>\<open>StoreValue\<close> together with \<^verbatim>\<open>undefined\<close>; \<open>classes\<close> lists
  the subclasses of \<^verbatim>\<open>Store\<close> that the instance belongs to, the most derived first.
\<close>

datatype store_value = Undefined | Json json | Container store
  | Producer nat "nat \<Rightarrow> json option"
and store = Store (defaultPolicy: permission) (classes: "string list")
  (instancePermissions: "(string \<times> permission) list")
  (fields: "(string \<times> store_value) list")
  (dynamicValues: "(string \<times> store_value) list")

datatype store_result = RUndefined | RJson json | RStore store

datatype operation = ReadOp | WriteOp

datatype error = AccessDenied operation string

type_synonym calls = "nat \<Rightarrow> nat"

subsection \<open>The permission registry\<close>

text \<open>The decorator \<^verbatim>\<open>Restrict(permission)(target, propertyKey)\<close> on a prototype.\<close>

definition Restrict :: "permission \<Rightarrow> proto \<Rightarrow> string \<Rightarrow> registry \<Rightarrow> registry" where
  "Restrict perm target key pm = pm(target := (pm target)(key \<mapsto> perm))"

text \<open>The same call with an instance as its target.\<close>

definition RestrictInstance :: "permission \<Rightarrow> store \<Rightarrow> string \<Rightarrow> store" where
  "RestrictInstance perm target key =
     Store (defaultPolicy target) (classes target)
       (AList.update key perm (instancePermissions target))
       (fields target) (dynamicValues target)"

text \<open>The chain that \<^verbatim>\<open>Object.getPrototypeOf\<close> walks from an instance, until \<^verbatim>\<open>null\<close>.\<close>

definition prototypeChain :: "store \<Rightarrow> proto list" where
  "prototypeChain instance = map ClassProto (classes instance) @ [StoreProto, ObjectProto]"

text \<open>The \<^verbatim>\<open>while (prototype)\<close> loop of \<^verbatim>\<open>getPermissionForKey\<close>.\<close>

fun walkPrototypes :: "registry \<Rightarrow> proto list \<Rightarrow> string \<Rightarrow> permission option" where
  "walkPrototypes pm [] key = None"
| "walkPrototypes pm (prototype # ancestors) key =
     (case pm prototype key of
        Some perm \<Rightarrow> Some perm
      | None \<Rightarrow> walkPrototypes pm ancestors key)"

definition getPermissionForKey :: "registry \<Rightarrow> store \<Rightarrow> string \<Rightarrow> permission" where
  "getPermissionForKey pm instance key =
     (case map_of (instancePermissions instance) key of
        Some perm \<Rightarrow> perm
      | None \<Rightarrow>
          (case walkPrototypes pm (prototypeChain instance) key of
             Some perm \<Rightarrow> perm
           | None \<Rightarrow> defaultPolicy instance))"

subsection \<open>Values\<close>

fun isJSONObject :: "store_value \<Rightarrow> bool" where
  "isJSONObject (Json (JObj es)) = True"
| "isJSONObject v = False"

text \<open>
  \<^verbatim>\<open>resolveValue\<close>: a function is invoked, which advances its invocation count; any
  other value is returned as it is.
\<close>

fun resolveValue :: "store_value \<Rightarrow> calls \<Rightarrow> store_result \<times> calls" where
  "resolveValue (Producer pid f) cs =
     ((case f (cs pid) of None \<Rightarrow> RUndefined | Some j \<Rightarrow> RJson j),
      cs(pid := Suc (cs pid)))"
| "resolveValue Undefined cs = (RUndefined, cs)"
| "resolveValue (Json j) cs = (RJson j, cs)"
| "resolveValue (Container c) cs = (RStore c, cs)"

subsection \<open>The container\<close>

text \<open>\<^verbatim>\<open>new Store()\<close>: the default policy is \<^verbatim>\<open>"rw"\<close> and there are no slots.\<close>

definition newStore :: store where
  "newStore = Store RW [] [] [] []"

definition allowedToRead :: "registry \<Rightarrow> store \<Rightarrow> string \<Rightarrow> bool" where
  "allowedToRead pm this key =
     (let permission = getPermissionForKey pm this key
      in permission = R \<or> permission = RW)"

definition allowedToWrite :: "registry \<Rightarrow> store \<Rightarrow> string \<Rightarrow> bool" where
  "allowedToWrite pm this key =
     (let permission = getPermissionForKey pm this key
      in permission = W \<or> permission = RW)"

text \<open>\<^verbatim>\<open>key in this\<close>, for the own properties of the instance.\<close>

definition key_in_this :: "store \<Rightarrow> string \<Rightarrow> bool" where
  "key_in_this this key \<longleftrightarrow>
     key \<in> set (map fst (fields this)) \<or> key = ''defaultPolicy'' \<or> key = ''dynamicValues''"

definition getRawValue :: "store \<Rightarrow> string \<Rightarrow> store_value" where
  "getRawValue this key =
     (if key_in_this this key \<and> key \<noteq> ''dynamicValues'' \<and> key \<noteq> ''defaultPolicy''
      then (case map_of (fields this) key of Some v \<Rightarrow> v | None \<Rightarrow> Undefined)
      else (case map_of (dynamicValues this) key of Some v \<Rightarrow> v | None \<Rightarrow> Undefined))"

definition setRawValue :: "store \<Rightarrow> string \<Rightarrow> store_value \<Rightarrow> store" where
  "setRawValue this key v =
     (if key_in_this this key \<and> key \<noteq> ''dynamicValues'' \<and> key \<noteq> ''defaultPolicy''
      then Store (defaultPolicy this) (classes this) (instancePermissions this)
             (AList.update key v (fields this)) (dynamicValues this)
      else Store (defaultPolicy this) (classes this) (instancePermissions this)
             (fields this) (AList.update key v (dynamicValues this)))"


text \<open>
  \<^verbatim>\<open>const [key, ...rest] = path.split(":")\<close>: the split of a string is never empty, so
  it is returned as its first segment and the list of the others.
\<close>

fun split_colon :: "string \<Rightarrow> string \<times> string list" where
  "split_colon [] = ([], [])"
| "split_colon (c # cs) =
     (case split_colon cs of
        (seg, segs) \<Rightarrow> if c = CHR '':'' then ([], seg # segs) else (c # seg, segs))"

text \<open>\<^verbatim>\<open>rest.join(":")\<close>\<close>

fun join_colon :: "string list \<Rightarrow> string" where
  "join_colon [] = []"
| "join_colon [seg] = seg"
| "join_colon (seg # seg' # segs) = seg @ CHR '':'' # join_colon (seg' # segs)"

text \<open>
  \<^verbatim>\<open>read\<close>, on a path that is already split: the recursive call of the source on
  \<^verbatim>\<open>rest.join(":")\<close> splits that string into \<open>rest\<close> again (lemmas \<open>split_join\<close> and
  \<open>read_source_equation\<close> below).
\<close>

fun read_path :: "registry \<Rightarrow> store \<Rightarrow> string \<Rightarrow> string list \<Rightarrow> calls
    \<Rightarrow> (error + store_result) \<times> calls" where
  "read_path pm this key rest cs =
     (if \<not> allowedToRead pm this key then (Inl (AccessDenied ReadOp key), cs)
      else case resolveValue (getRawValue this key) cs of
        (v, cs1) \<Rightarrow>
          (case rest of
             [] \<Rightarrow> (Inr v, cs1)
           | k # ks \<Rightarrow>
               (case v of
                  RStore nested \<Rightarrow> read_path pm nested k ks cs1
                | _ \<Rightarrow> (Inr RUndefined, cs1))))"

definition read :: "registry \<Rightarrow> store \<Rightarrow> string \<Rightarrow> calls \<Rightarrow> (error + store_result) \<times> calls" where
  "read pm this path cs =
     (case split_colon path of (key, rest) \<Rightarrow> read_path pm this key rest cs)"

text \<open>The measure of a value to be written, for the termination proof below.\<close>

fun vsize :: "store_value \<Rightarrow> nat" where
  "vsize (Json j) = size j"
| "vsize v = 0"

text \<open>
  \<^verbatim>\<open>write\<close> (here \<open>write_path\<close> on a split path, \<open>write_store\<close> on a string),
  \<^verbatim>\<open>writeEntries\<close> and \<^verbatim>\<open>convertToStoreValue\<close> call each other. The test
  \<^verbatim>\<open>isJSONObject(value)\<close> is the pattern \<open>Json (JObj es)\<close>. A nested container is
  changed in place by the source; here the changed container is put back into the slot
  it was read from (lemma \<open>write_source_equation\<close> below gives the equations of the
  source on path strings).
\<close>

function (sequential)
  write_path :: "registry \<Rightarrow> store \<Rightarrow> string \<Rightarrow> string list \<Rightarrow> store_value \<Rightarrow> calls
    \<Rightarrow> (error + store_value) \<times> store \<times> calls"
and writeEntries :: "registry \<Rightarrow> store \<Rightarrow> (string \<times> json) list \<Rightarrow> calls
    \<Rightarrow> (error + unit) \<times> store \<times> calls"
and convertToStoreValue :: "registry \<Rightarrow> json \<Rightarrow> calls \<Rightarrow> (error + store_value) \<times> calls"
where
  "write_path pm this key [] v cs =
     (if \<not> allowedToWrite pm this key then (Inl (AccessDenied WriteOp key), this, cs)
      else case (case v of
                   Json (JObj es) \<Rightarrow> convertToStoreValue pm (JObj es) cs
                 | _ \<Rightarrow> (Inr v, cs)) of
        (Inl e, cs1) \<Rightarrow> (Inl e, this, cs1)
      | (Inr storeValue, cs1) \<Rightarrow> (Inr storeValue, setRawValue this key storeValue, cs1))"
| "write_path pm this key (k # ks) v cs =
     (if \<not> allowedToRead pm this key then (Inl (AccessDenied ReadOp key), this, cs)
      else case resolveValue (getRawValue this key) cs of
        (resolved, cs1) \<Rightarrow>
          (case resolved of
             RStore nestedStore \<Rightarrow>
               (case write_path pm nestedStore k ks v cs1 of
                  (r, nestedStore', cs2) \<Rightarrow>
                    (r, setRawValue this key (Container nestedStore'), cs2))
           | _ \<Rightarrow>
               if \<not> allowedToWrite pm this key
               then (Inl (AccessDenied WriteOp key), this, cs1)
               else (case write_path pm newStore k ks v cs1 of
                       (r, nestedStore', cs2) \<Rightarrow>
                         (r, setRawValue this key (Container nestedStore'), cs2))))"
| "writeEntries pm this [] cs = (Inr (), this, cs)"
| "writeEntries pm this ((key, v) # es) cs =
     (case convertToStoreValue pm v cs of
        (Inl e, cs1) \<Rightarrow> (Inl e, this, cs1)
      | (Inr storeValue, cs1) \<Rightarrow>
          (case write_path pm this (fst (split_colon key)) (snd (split_colon key))
                  storeValue cs1 of
             (Inl e, this', cs2) \<Rightarrow> (Inl e, this', cs2)
           | (Inr _, this', cs2) \<Rightarrow> writeEntries pm this' es cs2))"
| "convertToStoreValue pm (JObj es) cs =
     (case writeEntries pm newStore es cs of
        (Inl e, _, cs1) \<Rightarrow> (Inl e, cs1)
      | (Inr _, st, cs1) \<Rightarrow> (Inr (Container st), cs1))"
| "convertToStoreValue pm v cs = (Inr (Json v), cs)"
  by pat_completeness auto

termination
proof (relation "inv_image (less_than <*lex*> less_than <*lex*> less_than)
     (\<lambda>x. case x of
        Inl (pm, this, key, rest, v, cs) \<Rightarrow> (vsize v, 1::nat, length rest)
      | Inr (Inl (pm, this, es, cs)) \<Rightarrow> (size_list (size_prod (\<lambda>_. 0) size) es, 2, 0)
      | Inr (Inr (pm, v, cs)) \<Rightarrow> (size v, 0, 0))", goal_cases)
  case (7 pm this key v es cs x y b)
  then have "vsize b \<le> size v"
    by (cases v) (auto simp: convertToStoreValue.psimps split: prod.splits sum.splits)
  then show ?case by simp
qed auto

definition write_store :: "registry \<Rightarrow> store \<Rightarrow> string \<Rightarrow> store_value \<Rightarrow> calls
    \<Rightarrow> (error + store_value) \<times> store \<times> calls" where
  "write_store pm this path v cs =
     (case split_colon path of (key, rest) \<Rightarrow> write_path pm this key rest v cs)"





section \<open>Properties\<close>

subsection \<open>Paths\<close>

lemma split_colon_no_colon:
  "CHR '':'' \<notin> set key \<Longrightarrow> split_colon key = (key, [])"
  by (induction key) auto

lemma split_colon_append:
  "CHR '':'' \<notin> set key \<Longrightarrow>
   split_colon (key @ CHR '':'' # path) = (key, fst (split_colon path) # snd (split_colon path))"
  by (induction key) (auto split: prod.splits)

lemma split_join:
  "\<forall>seg \<in> set (seg0 # segs). CHR '':'' \<notin> set seg \<Longrightarrow>
   split_colon (join_colon (seg0 # segs)) = (seg0, segs)"
proof (induction segs arbitrary: seg0)
  case Nil
  then show ?case by (simp add: split_colon_no_colon)
next
  case (Cons s segs)
  then show ?case by (simp add: split_colon_append)
qed

lemma split_segments_no_colon:
  "split_colon path = (key, rest) \<Longrightarrow> \<forall>seg \<in> set (key # rest). CHR '':'' \<notin> set seg"
  by (induction path arbitrary: key rest) (auto split: prod.splits if_splits)

lemma join_colon_Cons: "join_colon ((c # seg) # segs) = c # join_colon (seg # segs)"
  by (cases segs) auto

lemma join_split: "join_colon (fst (split_colon path) # snd (split_colon path)) = path"
  by (induction path) (auto simp: join_colon_Cons split: prod.splits)

subsection \<open>Slots\<close>

lemma setRawValue_sel [simp]:
  "defaultPolicy (setRawValue this key v) = defaultPolicy this"
  "classes (setRawValue this key v) = classes this"
  "instancePermissions (setRawValue this key v) = instancePermissions this"
  by (simp_all add: setRawValue_def)

lemma getPermissionForKey_setRawValue [simp]:
  "getPermissionForKey pm (setRawValue this key v) k = getPermissionForKey pm this k"
  by (simp add: getPermissionForKey_def prototypeChain_def split: option.split)

lemma allowed_setRawValue [simp]:
  "allowedToRead pm (setRawValue this key v) k = allowedToRead pm this k"
  "allowedToWrite pm (setRawValue this key v) k = allowedToWrite pm this k"
  by (simp_all add: allowedToRead_def allowedToWrite_def)

lemma key_in_this_setRawValue [simp]:
  "key_in_this (setRawValue this key v) k = key_in_this this k"
  by (auto simp: key_in_this_def setRawValue_def dom_update)

lemma getRawValue_setRawValue_same [simp]:
  "getRawValue (setRawValue this key v) key = v"
  unfolding getRawValue_def key_in_this_setRawValue
  by (simp add: setRawValue_def update_conv')


subsection \<open>Permission resolution\<close>

declare read_path.simps [simp del]

lemma walkPrototypes_first:
  "\<forall>q \<in> set nearer. pm q key = None \<Longrightarrow> pm owner key = Some perm \<Longrightarrow>
   walkPrototypes pm (nearer @ owner # further) key = Some perm"
  by (induction nearer) auto

lemma walkPrototypes_none:
  "\<forall>q \<in> set chain. pm q key = None \<Longrightarrow> walkPrototypes pm chain key = None"
  by (induction chain) auto

text \<open>
  C1. Permission resolution for an instance and a key consults, in this order: the override
  declared on the instance itself; the prototypes of the instance's class chain, nearest
  first, the first one that declares the key winning; the instance's own
  \<^verbatim>\<open>defaultPolicy\<close>. The chain is finite, so the walk ends, and the result is exactly one
  permission. In particular a declaration on the instance wins over one on a type.
\<close>

theorem getPermissionForKey_resolution_order:
  "(map_of (instancePermissions instance) key = Some perm \<longrightarrow>
      getPermissionForKey pm instance key = perm)
   \<and> (map_of (instancePermissions instance) key = None
        \<and> prototypeChain instance = nearer @ owner # further
        \<and> (\<forall>q \<in> set nearer. pm q key = None) \<and> pm owner key = Some perm'
      \<longrightarrow> getPermissionForKey pm instance key = perm')
   \<and> (map_of (instancePermissions instance) key = None
        \<and> (\<forall>q \<in> set (prototypeChain instance). pm q key = None)
      \<longrightarrow> getPermissionForKey pm instance key = defaultPolicy instance)
   \<and> prototypeChain instance = map ClassProto (classes instance) @ [StoreProto, ObjectProto]
   \<and> (\<exists>!p. getPermissionForKey pm instance key = p)"
  by (auto simp: getPermissionForKey_def walkPrototypes_first walkPrototypes_none
        prototypeChain_def)

theorem getPermissionForKey_resolution_order_witness:
  "(map_of (instancePermissions (RestrictInstance W (Store RW [''User''] [] [] []) ''x'')) ''x''
      = Some W
    \<and> Restrict R (ClassProto ''User'') ''x'' (\<lambda>_ _. None) (ClassProto ''User'') ''x'' = Some R
    \<and> getPermissionForKey (Restrict R (ClassProto ''User'') ''x'' (\<lambda>_ _. None))
        (RestrictInstance W (Store RW [''User''] [] [] []) ''x'') ''x'' = W)
   \<and> (map_of (instancePermissions (Store NoAccess [''Sub'', ''Base''] [] [] [])) ''x'' = None
    \<and> prototypeChain (Store NoAccess [''Sub'', ''Base''] [] [] [])
        = [ClassProto ''Sub''] @ ClassProto ''Base'' # [StoreProto, ObjectProto]
    \<and> Restrict R (ClassProto ''Base'') ''x'' (Restrict W StoreProto ''x'' (\<lambda>_ _. None))
          (ClassProto ''Sub'') ''x'' = None
    \<and> Restrict R (ClassProto ''Base'') ''x'' (Restrict W StoreProto ''x'' (\<lambda>_ _. None))
          (ClassProto ''Base'') ''x'' = Some R
    \<and> Restrict R (ClassProto ''Base'') ''x'' (Restrict W StoreProto ''x'' (\<lambda>_ _. None))
          StoreProto ''x'' = Some W
    \<and> getPermissionForKey
          (Restrict R (ClassProto ''Base'') ''x'' (Restrict W StoreProto ''x'' (\<lambda>_ _. None)))
          (Store NoAccess [''Sub'', ''Base''] [] [] []) ''x'' = R)
   \<and> (map_of (instancePermissions (Store NoAccess [''Sub''] [] [] [])) ''x'' = None
    \<and> prototypeChain (Store NoAccess [''Sub''] [] [] [])
        = [ClassProto ''Sub'', StoreProto, ObjectProto]
    \<and> getPermissionForKey (\<lambda>_ _. None) (Store NoAccess [''Sub''] [] [] []) ''x'' = NoAccess)"
proof -
  let ?pm1 = "Restrict R (ClassProto ''User'') ''x'' (\<lambda>_ _. None)"
  let ?i1 = "RestrictInstance W (Store RW [''User''] [] [] []) ''x''"
  let ?pm2 = "Restrict R (ClassProto ''Base'') ''x'' (Restrict W StoreProto ''x'' (\<lambda>_ _. None))"
  let ?i2 = "Store NoAccess [''Sub'', ''Base''] [] [] []"
  let ?i3 = "Store NoAccess [''Sub''] [] [] []"
  have a: "map_of (instancePermissions ?i1) ''x'' = Some W"
    by (simp add: RestrictInstance_def)
  have a': "?pm1 (ClassProto ''User'') ''x'' = Some R"
    by (simp add: Restrict_def)
  have b1: "map_of (instancePermissions ?i2) ''x'' = None" by simp
  have b2: "prototypeChain ?i2 = [ClassProto ''Sub''] @ ClassProto ''Base'' # [StoreProto, ObjectProto]"
    by (simp add: prototypeChain_def)
  have b3: "\<forall>q \<in> set [ClassProto ''Sub'']. ?pm2 q ''x'' = None"
    by (simp add: Restrict_def)
  have b4: "?pm2 (ClassProto ''Base'') ''x'' = Some R"
    by (simp add: Restrict_def)
  have b5: "?pm2 (ClassProto ''Sub'') ''x'' = None" "?pm2 StoreProto ''x'' = Some W"
    by (simp_all add: Restrict_def)
  have c1: "map_of (instancePermissions ?i3) ''x'' = None" by simp
  have c2: "\<forall>q \<in> set (prototypeChain ?i3). (\<lambda>_ _. None :: permission option) q ''x'' = None"
    by simp
  have c3: "prototypeChain ?i3 = [ClassProto ''Sub'', StoreProto, ObjectProto]"
    by (simp add: prototypeChain_def)
  from getPermissionForKey_resolution_order[of ?i1 "''x''" W ?pm1] a
  have r1: "getPermissionForKey ?pm1 ?i1 ''x'' = W" by blast
  from getPermissionForKey_resolution_order[of ?i2 "''x''" _ ?pm2 "[ClassProto ''Sub'']"
      "ClassProto ''Base''" "[StoreProto, ObjectProto]" R] b1 b2 b3 b4
  have r2: "getPermissionForKey ?pm2 ?i2 ''x'' = R" by blast
  from getPermissionForKey_resolution_order[of ?i3 "''x''" _ "\<lambda>_ _. None"] c1 c2
  have r3: "getPermissionForKey (\<lambda>_ _. None) ?i3 ''x'' = NoAccess" by simp
  from a a' b1 b2 b4 b5 c1 c3 r1 r2 r3 show ?thesis by blast
qed

lemma read_path_denied:
  "\<not> allowedToRead pm this key \<Longrightarrow>
   read_path pm this key rest cs = (Inl (AccessDenied ReadOp key), cs)"
  by (simp add: read_path.simps)

lemma read_path_last:
  "allowedToRead pm this key \<Longrightarrow>
   read_path pm this key [] cs =
     (Inr (fst (resolveValue (getRawValue this key) cs)),
      snd (resolveValue (getRawValue this key) cs))"
  by (simp add: read_path.simps split: prod.split)




lemma write_path_last_plain:
  "allowedToWrite pm this key \<Longrightarrow> \<not> isJSONObject v \<Longrightarrow>
   write_path pm this key [] v cs = (Inr v, setRawValue this key v, cs)"
  by (cases v rule: isJSONObject.cases) auto

text \<open>
  C2. \<^verbatim>\<open>allowedToRead\<close> holds exactly when the resolved permission is \<^verbatim>\<open>r\<close> or \<^verbatim>\<open>rw\<close>,
  \<^verbatim>\<open>allowedToWrite\<close> exactly when it is \<^verbatim>\<open>w\<close> or \<^verbatim>\<open>rw\<close>. So for a container whose
  default policy is \<^verbatim>\<open>none\<close> and a key with no declared permission, both are false, and
  reading the key and writing a value to it both throw the access error, leaving the
  container as it was. (A key is one path segment: it holds no colon.)
\<close>

theorem allowed_iff_permission:
  "(allowedToRead pm this key \<longleftrightarrow> getPermissionForKey pm this key \<in> {R, RW})
   \<and> (allowedToWrite pm this key \<longleftrightarrow> getPermissionForKey pm this key \<in> {W, RW})
   \<and> (defaultPolicy this = NoAccess \<and> map_of (instancePermissions this) key = None
        \<and> (\<forall>q \<in> set (prototypeChain this). pm q key = None)
      \<longrightarrow> \<not> allowedToRead pm this key \<and> \<not> allowedToWrite pm this key
          \<and> (CHR '':'' \<notin> set key
              \<longrightarrow> read pm this key cs = (Inl (AccessDenied ReadOp key), cs)
                \<and> write_store pm this key v cs = (Inl (AccessDenied WriteOp key), this, cs)))"
proof -
  have rw: "(allowedToRead pm this key \<longleftrightarrow> getPermissionForKey pm this key \<in> {R, RW})"
    "(allowedToWrite pm this key \<longleftrightarrow> getPermissionForKey pm this key \<in> {W, RW})"
    by (simp_all add: allowedToRead_def allowedToWrite_def Let_def)
  have "\<not> allowedToRead pm this key \<and> \<not> allowedToWrite pm this key
        \<and> (CHR '':'' \<notin> set key
              \<longrightarrow> read pm this key cs = (Inl (AccessDenied ReadOp key), cs)
                \<and> write_store pm this key v cs = (Inl (AccessDenied WriteOp key), this, cs))"
    if h: "defaultPolicy this = NoAccess" "map_of (instancePermissions this) key = None"
      "\<forall>q \<in> set (prototypeChain this). pm q key = None"
  proof -
    from h have p: "getPermissionForKey pm this key = NoAccess"
      by (simp add: getPermissionForKey_def walkPrototypes_none)
    then have d: "\<not> allowedToRead pm this key" "\<not> allowedToWrite pm this key"
      by (simp_all add: rw)
    then show ?thesis
      by (simp add: read_def write_store_def split_colon_no_colon read_path_denied)
  qed
  with rw show ?thesis by blast
qed

theorem allowed_iff_permission_witness:
  "defaultPolicy (Store NoAccess [] [] [] []) = NoAccess
   \<and> map_of (instancePermissions (Store NoAccess [] [] [] [])) ''x'' = None
   \<and> prototypeChain (Store NoAccess [] [] [] []) = [StoreProto, ObjectProto]
   \<and> CHR '':'' \<notin> set ''x''
   \<and> \<not> allowedToRead (\<lambda>_ _. None) (Store NoAccess [] [] [] []) ''x''
   \<and> \<not> allowedToWrite (\<lambda>_ _. None) (Store NoAccess [] [] [] []) ''x''
   \<and> read (\<lambda>_ _. None) (Store NoAccess [] [] [] []) ''x'' (\<lambda>_. 0)
        = (Inl (AccessDenied ReadOp ''x''), (\<lambda>_. 0))
   \<and> write_store (\<lambda>_ _. None) (Store NoAccess [] [] [] []) ''x'' (Json (JNum 1)) (\<lambda>_. 0)
        = (Inl (AccessDenied WriteOp ''x''), Store NoAccess [] [] [] [], (\<lambda>_. 0))"
proof -
  have h: "defaultPolicy (Store NoAccess [] [] [] []) = NoAccess
      \<and> map_of (instancePermissions (Store NoAccess [] [] [] [])) ''x'' = None
      \<and> (\<forall>q \<in> set (prototypeChain (Store NoAccess [] [] [] [])).
            (\<lambda>_ _. None :: permission option) q ''x'' = None)"
    and k: "CHR '':'' \<notin> set ''x''"
    and c: "prototypeChain (Store NoAccess [] [] [] []) = [StoreProto, ObjectProto]"
    by (simp_all add: prototypeChain_def)
  from allowed_iff_permission[of "\<lambda>_ _. None" "Store NoAccess [] [] [] []" "''x''" "\<lambda>_. 0"
      "Json (JNum 1)"] h k c
  show ?thesis by blast
qed

subsection \<open>Reading\<close>

lemma read_single:
  "CHR '':'' \<notin> set key \<Longrightarrow> allowedToRead pm this key \<Longrightarrow>
   read pm this key cs =
     (Inr (fst (resolveValue (getRawValue this key) cs)),
      snd (resolveValue (getRawValue this key) cs))"
  by (simp add: read_def split_colon_no_colon read_path_last)


text \<open>
  C6. A read of a key whose raw slot value is a producer function invokes the function,
  with no arguments, on every read and returns what that invocation returns; nothing is
  cached, so the second of two successive reads returns the function's next result.
\<close>

theorem read_invokes_producer_each_time:
  "CHR '':'' \<notin> set key \<and> allowedToRead pm this key \<and> getRawValue this key = Producer pid f
   \<longrightarrow> read pm this key cs =
         (Inr (case f (cs pid) of None \<Rightarrow> RUndefined | Some j \<Rightarrow> RJson j),
          cs(pid := Suc (cs pid)))
     \<and> read pm this key (cs(pid := Suc (cs pid))) =
         (Inr (case f (Suc (cs pid)) of None \<Rightarrow> RUndefined | Some j \<Rightarrow> RJson j),
          cs(pid := Suc (Suc (cs pid))))"
  by (simp add: read_single)

theorem read_invokes_producer_each_time_witness:
  "CHR '':'' \<notin> set ''n''
   \<and> fst (snd (write_store (\<lambda>_ _. None) newStore ''n''
              (Producer 0 (\<lambda>i. Some (JNum (int i + 1)))) (\<lambda>_. 0)))
       = Store RW [] [] [] [(''n'', Producer 0 (\<lambda>i. Some (JNum (int i + 1))))]
   \<and> allowedToRead (\<lambda>_ _. None)
        (Store RW [] [] [] [(''n'', Producer 0 (\<lambda>i. Some (JNum (int i + 1))))]) ''n''
   \<and> fst (read (\<lambda>_ _. None)
        (Store RW [] [] [] [(''n'', Producer 0 (\<lambda>i. Some (JNum (int i + 1))))]) ''n''
        (\<lambda>_. 0)) = Inr (RJson (JNum 1))
   \<and> fst (read (\<lambda>_ _. None)
        (Store RW [] [] [] [(''n'', Producer 0 (\<lambda>i. Some (JNum (int i + 1))))]) ''n''
        ((\<lambda>_. 0)(0 := Suc 0))) = Inr (RJson (JNum 2))"
proof -
  let ?pm = "\<lambda>_ _. None :: permission option"
  let ?f = "\<lambda>i. Some (JNum (int i + 1))"
  let ?s = "Store RW [] [] [] [(''n'', Producer 0 ?f)]"
  have k: "CHR '':'' \<notin> set ''n''" by simp
  have p: "getPermissionForKey ?pm newStore ''n'' = RW" "getPermissionForKey ?pm ?s ''n'' = RW"
    by (simp_all add: getPermissionForKey_def prototypeChain_def newStore_def)
  then have a: "allowedToRead ?pm ?s ''n''" "allowedToWrite ?pm newStore ''n''"
    by (simp_all add: allowedToRead_def allowedToWrite_def)
  have w: "fst (snd (write_store ?pm newStore ''n'' (Producer 0 ?f) (\<lambda>_. 0))) = ?s"
    using a(2)
    by (simp add: write_store_def write_path_last_plain)
       (simp add: setRawValue_def key_in_this_def newStore_def)
  have g: "getRawValue ?s ''n'' = Producer 0 ?f"
    by (simp add: getRawValue_def key_in_this_def)
  from read_invokes_producer_each_time[of "''n''" ?pm ?s 0 ?f "\<lambda>_. 0"] k a(1) g
  have "fst (read ?pm ?s ''n'' (\<lambda>_. 0)) = Inr (RJson (JNum 1))"
    "fst (read ?pm ?s ''n'' ((\<lambda>_. 0)(0 := Suc 0))) = Inr (RJson (JNum 2))"
    by simp_all
  with k w a(1) show ?thesis by blast
qed



subsection \<open>Writing\<close>

lemma write_single:
  "CHR '':'' \<notin> set key \<Longrightarrow> write_store pm this key v cs = write_path pm this key [] v cs"
  by (simp add: write_store_def split_colon_no_colon)


lemma write_store_split:
  "write_store pm this path v cs =
     write_path pm this (fst (split_colon path)) (snd (split_colon path)) v cs"
  by (simp add: write_store_def split: prod.split)






lemma write_path_last_result:
  "write_path pm this key [] v cs = (r, this', cs') \<Longrightarrow>
   (\<exists>e. r = Inl e \<and> this' = this) \<or> (\<exists>sv. r = Inr sv \<and> this' = setRawValue this key sv)"
  by (auto split: if_splits prod.splits sum.splits store_value.splits json.splits)

declare write_path.simps [simp del]


lemma allowed_by_default:
  "map_of (instancePermissions this) key = None \<Longrightarrow>
   \<forall>q \<in> set (prototypeChain this). pm q key = None \<Longrightarrow>
   allowedToRead pm this key = (defaultPolicy this = R \<or> defaultPolicy this = RW)
   \<and> allowedToWrite pm this key = (defaultPolicy this = W \<or> defaultPolicy this = RW)"
  by (simp add: allowedToRead_def allowedToWrite_def getPermissionForKey_def
      walkPrototypes_none Let_def)

lemma allowed_newStore_empty_registry [simp]:
  "allowedToRead (\<lambda>_ _. None) newStore key" "allowedToWrite (\<lambda>_ _. None) newStore key"
  using allowed_by_default[of newStore key "\<lambda>_ _. None"]
  by (simp_all add: newStore_def)




subsection \<open>What a write leaves alone\<close>







text \<open>
  C10. A write of the single segment \<^verbatim>\<open>defaultPolicy\<close> or \<^verbatim>\<open>dynamicValues\<close> never
  touches the field of that name: the value goes into the dynamic slot map. After the
  write the default policy is what it was, so \<^verbatim>\<open>allowedToRead\<close> and \<^verbatim>\<open>allowedToWrite\<close>
  answer as before for every key, and a read of the key returns the value stored in the
  map (as \<^verbatim>\<open>read\<close> resolves it), not the policy.
\<close>

theorem reserved_key_write_is_dynamic:
  "key = ''defaultPolicy'' \<or> key = ''dynamicValues''
   \<longrightarrow> (case write_store pm this key v cs of
         (r, this', cs') \<Rightarrow>
           defaultPolicy this' = defaultPolicy this \<and> fields this' = fields this
           \<and> (\<forall>k. allowedToRead pm this' k = allowedToRead pm this k
                  \<and> allowedToWrite pm this' k = allowedToWrite pm this k)
           \<and> (case r of
                 Inl e \<Rightarrow> this' = this
               | Inr stored \<Rightarrow>
                   dynamicValues this' = AList.update key stored (dynamicValues this)
                   \<and> (allowedToRead pm this key \<longrightarrow>
                        read pm this' key cs'
                          = (Inr (fst (resolveValue stored cs')),
                             snd (resolveValue stored cs')))))"
proof (intro impI)
  assume key: "key = ''defaultPolicy'' \<or> key = ''dynamicValues''"
  then have k: "CHR '':'' \<notin> set key" by auto
  obtain r this' cs' where w: "write_path pm this key [] v cs = (r, this', cs')"
    by (cases "write_path pm this key [] v cs")
  have dyn: "dynamicValues (setRawValue this key x) = AList.update key x (dynamicValues this)"
    "fields (setRawValue this key x) = fields this" for x
    using key by (auto simp: setRawValue_def)
  have rd: "read pm (setRawValue this key x) key c
      = (Inr (fst (resolveValue x c)), snd (resolveValue x c))"
    if "allowedToRead pm this key" for x c
    using that k by (simp add: read_single)
  from write_path_last_result[OF w] dyn rd
  have "defaultPolicy this' = defaultPolicy this \<and> fields this' = fields this
           \<and> (\<forall>k. allowedToRead pm this' k = allowedToRead pm this k
                  \<and> allowedToWrite pm this' k = allowedToWrite pm this k)
           \<and> (case r of
                 Inl e \<Rightarrow> this' = this
               | Inr stored \<Rightarrow>
                   dynamicValues this' = AList.update key stored (dynamicValues this)
                   \<and> (allowedToRead pm this key \<longrightarrow>
                        read pm this' key cs'
                          = (Inr (fst (resolveValue stored cs')),
                             snd (resolveValue stored cs'))))"
    by auto
  with w k show "case write_store pm this key v cs of
         (r, this', cs') \<Rightarrow>
           defaultPolicy this' = defaultPolicy this \<and> fields this' = fields this
           \<and> (\<forall>k. allowedToRead pm this' k = allowedToRead pm this k
                  \<and> allowedToWrite pm this' k = allowedToWrite pm this k)
           \<and> (case r of
                 Inl e \<Rightarrow> this' = this
               | Inr stored \<Rightarrow>
                   dynamicValues this' = AList.update key stored (dynamicValues this)
                   \<and> (allowedToRead pm this key \<longrightarrow>
                        read pm this' key cs'
                          = (Inr (fst (resolveValue stored cs')),
                             snd (resolveValue stored cs'))))"
    by (simp add: write_single)
qed

theorem reserved_key_write_is_dynamic_witness:
  "write_store (\<lambda>_ _. None) newStore ''defaultPolicy'' (Json (JStr ''none'')) (\<lambda>_. 0)
     = (Inr (Json (JStr ''none'')),
        Store RW [] [] [] [(''defaultPolicy'', Json (JStr ''none''))], (\<lambda>_. 0))
   \<and> defaultPolicy (Store RW [] [] [] [(''defaultPolicy'', Json (JStr ''none''))]) = RW
   \<and> allowedToRead (\<lambda>_ _. None) newStore ''defaultPolicy''
   \<and> allowedToWrite (\<lambda>_ _. None)
        (Store RW [] [] [] [(''defaultPolicy'', Json (JStr ''none''))]) ''x''
   \<and> read (\<lambda>_ _. None) (Store RW [] [] [] [(''defaultPolicy'', Json (JStr ''none''))])
        ''defaultPolicy'' (\<lambda>_. 0)
     = (Inr (RJson (JStr ''none'')), (\<lambda>_. 0))"
proof -
  let ?pm = "\<lambda>_ _. None :: permission option"
  let ?cs = "\<lambda>_. 0 :: nat"
  let ?v = "Json (JStr ''none'')"
  let ?s' = "Store RW [] [] [] [(''defaultPolicy'', ?v)]"
  have w: "write_store ?pm newStore ''defaultPolicy'' ?v ?cs = (Inr ?v, ?s', ?cs)"
    by (simp add: write_single write_path_last_plain)
       (simp add: setRawValue_def key_in_this_def newStore_def)
  have ar: "allowedToRead ?pm (Store RW [] [] [] []) k" "allowedToWrite ?pm (Store RW [] [] [] []) k"
    for k
    using allowed_newStore_empty_registry[of k] by (simp_all add: newStore_def)
  from reserved_key_write_is_dynamic[where key = "''defaultPolicy''" and pm = ?pm
      and this = newStore and v = ?v and cs = ?cs, unfolded w]
  have "defaultPolicy ?s' = defaultPolicy newStore
     \<and> allowedToWrite ?pm ?s' ''x'' = allowedToWrite ?pm newStore ''x''
     \<and> read ?pm ?s' ''defaultPolicy'' ?cs = (Inr (RJson (JStr ''none'')), ?cs)"
    by (simp add: newStore_def ar)
  then have "defaultPolicy ?s' = RW \<and> allowedToWrite ?pm ?s' ''x''
     \<and> read ?pm ?s' ''defaultPolicy'' ?cs = (Inr (RJson (JStr ''none'')), ?cs)"
    by (simp add: newStore_def ar)
  with w show ?thesis by simp
qed

subsection \<open>The snapshot\<close>










subsection \<open>Round trip\<close>










subsection \<open>The recursion of the source, on path strings\<close>

text \<open>
  \<open>read_path\<close> and \<open>write_path\<close> recurse on the list of the remaining segments, where the
  source joins them and splits the string again. Both are the same: \<open>read\<close> and
  \<open>write_store\<close> satisfy the equations of the source, with \<^verbatim>\<open>rest.join(":")\<close> in the
  recursive call.
\<close>

lemma split_join_rest:
  assumes "split_colon path = (key, k # ks)"
  shows "split_colon (join_colon (k # ks)) = (k, ks)"
proof -
  from split_segments_no_colon[OF assms]
  have "\<forall>seg \<in> set (k # ks). CHR '':'' \<notin> set seg" by simp
  then show ?thesis by (rule split_join)
qed

lemma read_source_equation:
  "read pm this path cs =
     (case split_colon path of
        (key, rest) \<Rightarrow>
          if \<not> allowedToRead pm this key then (Inl (AccessDenied ReadOp key), cs)
          else case resolveValue (getRawValue this key) cs of
            (v, cs1) \<Rightarrow>
              if rest = [] then (Inr v, cs1)
              else (case v of
                      RStore nested \<Rightarrow> read pm nested (join_colon rest) cs1
                    | _ \<Rightarrow> (Inr RUndefined, cs1)))"
proof -
  obtain key rest where s: "split_colon path = (key, rest)"
    by (cases "split_colon path")
  show ?thesis
  proof (cases rest)
    case Nil
    with s show ?thesis
      by (simp add: read_def read_path.simps[of pm this key "[]"] split: prod.split)
  next
    case (Cons k ks)
    with s have j: "split_colon (join_colon rest) = (k, ks)"
      by (simp add: split_join_rest)
    with s Cons show ?thesis
      by (simp add: read_def read_path.simps[of pm this key "k # ks"]
          split: prod.split store_result.split)
  qed
qed

lemma write_source_equation:
  "write_store pm this path v cs =
     (case split_colon path of
        (key, rest) \<Rightarrow>
          if rest = [] then
            (if \<not> allowedToWrite pm this key then (Inl (AccessDenied WriteOp key), this, cs)
             else case (if isJSONObject v
                        then (case v of Json j \<Rightarrow> convertToStoreValue pm j cs
                                      | _ \<Rightarrow> (Inr v, cs))
                        else (Inr v, cs)) of
               (Inl e, cs1) \<Rightarrow> (Inl e, this, cs1)
             | (Inr storeValue, cs1) \<Rightarrow>
                 (Inr storeValue, setRawValue this key storeValue, cs1))
          else if \<not> allowedToRead pm this key
            then (Inl (AccessDenied ReadOp key), this, cs)
          else case resolveValue (getRawValue this key) cs of
            (resolved, cs1) \<Rightarrow>
              (case resolved of
                 RStore nestedStore \<Rightarrow>
                   (case write_store pm nestedStore (join_colon rest) v cs1 of
                      (r, nestedStore', cs2) \<Rightarrow>
                        (r, setRawValue this key (Container nestedStore'), cs2))
               | _ \<Rightarrow>
                   if \<not> allowedToWrite pm this key
                   then (Inl (AccessDenied WriteOp key), this, cs1)
                   else (case write_store pm newStore (join_colon rest) v cs1 of
                           (r, nestedStore', cs2) \<Rightarrow>
                             (r, setRawValue this key (Container nestedStore'), cs2))))"
proof -
  obtain key rest where s: "split_colon path = (key, rest)"
    by (cases "split_colon path")
  show ?thesis
  proof (cases rest)
    case Nil
    with s show ?thesis
      by (cases v rule: isJSONObject.cases)
         (simp_all add: write_store_def write_path.simps(1))
  next
    case (Cons k ks)
    with s have j: "split_colon (join_colon rest) = (k, ks)"
      by (simp add: split_join_rest)
    with s Cons show ?thesis
      by (simp add: write_store_def write_path.simps(2)
          split: prod.split store_result.split)
  qed
qed

lemma writeEntries_source_equation:
  "writeEntries pm this ((key, v) # es) cs =
     (case convertToStoreValue pm v cs of
        (Inl e, cs1) \<Rightarrow> (Inl e, this, cs1)
      | (Inr storeValue, cs1) \<Rightarrow>
          (case write_store pm this key storeValue cs1 of
             (Inl e, this', cs2) \<Rightarrow> (Inl e, this', cs2)
           | (Inr _, this', cs2) \<Rightarrow> writeEntries pm this' es cs2))"
  by (simp add: write_store_split split: prod.split sum.split)

end
